theory Spec2Isabelle
  imports Main
begin

section \<open>Python values and exceptions\<close>

text \<open>
  The values that flow through \<^verbatim>\<open>praw/models/listing/generator.py\<close>: what
  \<^verbatim>\<open>Reddit.get\<close> may return, what a page holds and what \<^verbatim>\<open>__next__\<close> hands out.
  A \<open>Listing\<close> object carries its children and its \<^verbatim>\<open>after\<close> cursor (a string
  or \<^verbatim>\<open>None\<close>). A dictionary is an association list in insertion order.
\<close>

datatype pyobj =
    PyNone
  | PyInt int
  | PyStr string
  | PyList "pyobj list"
  | PyDict "(string \<times> pyobj) list"
  | Listing "pyobj list" "string option"

type_synonym dict = "(string \<times> pyobj) list"

datatype exn =
    StopIteration
  | IndexError
  | KeyError
  | TypeError
  | AttributeError
  | RequestException string

text \<open>\<^verbatim>\<open>d[k] = v\<close>: an existing key keeps its place, a new key is appended.\<close>

fun dict_set :: "string \<Rightarrow> pyobj \<Rightarrow> dict \<Rightarrow> dict" where
  "dict_set k v [] = [(k, v)]"
| "dict_set k v ((k', v') # kvs) =
     (if k' = k then (k, v) # kvs else (k', v') # dict_set k v kvs)"

text \<open>\<^verbatim>\<open>d.get(k)\<close>: the value, or \<^verbatim>\<open>None\<close> for a missing key.\<close>

definition dict_get :: "string \<Rightarrow> dict \<Rightarrow> pyobj" where
  "dict_get k d = (case map_of d k of None \<Rightarrow> PyNone | Some v \<Rightarrow> v)"

text \<open>\<^verbatim>\<open>xs[i]\<close> on a Python list: a negative index counts from the end, an index
  out of range raises \<^verbatim>\<open>IndexError\<close>.\<close>

definition list_getitem :: "pyobj list \<Rightarrow> int \<Rightarrow> exn + pyobj" where
  "list_getitem xs i =
     (if 0 \<le> i \<and> i < int (length xs) then Inr (xs ! nat i)
      else if i < 0 \<and> - int (length xs) \<le> i then Inr (xs ! nat (int (length xs) + i))
      else Inl IndexError)"

text \<open>
  Modelled from the spec: the class \<^verbatim>\<open>Listing\<close> (module \<^verbatim>\<open>.listing\<close>) is not part
  of the source at hand. The spec's Page is "an ordered sequence of items (indexable,
  length-queryable)" with "an \<^verbatim>\<open>after\<close> field: an opaque cursor string or null/empty",
  and "empty" means "zero items". So the truth value, the length and the indexing of a
  \<open>Listing\<close> are those of its children, and only a \<open>Listing\<close> has the attribute
  \<^verbatim>\<open>after\<close>. The other constructors behave as the Python built-ins do.
\<close>

fun truthy :: "pyobj \<Rightarrow> bool" where
  "truthy PyNone = False"
| "truthy (PyInt n) = (n \<noteq> 0)"
| "truthy (PyStr s) = (s \<noteq> [])"
| "truthy (PyList xs) = (xs \<noteq> [])"
| "truthy (PyDict kvs) = (kvs \<noteq> [])"
| "truthy (Listing cs a) = (cs \<noteq> [])"

fun len :: "pyobj \<Rightarrow> exn + int" where
  "len PyNone = Inl TypeError"
| "len (PyInt n) = Inl TypeError"
| "len (PyStr s) = Inr (int (length s))"
| "len (PyList xs) = Inr (int (length xs))"
| "len (PyDict kvs) = Inr (int (length kvs))"
| "len (Listing cs a) = Inr (int (length cs))"

fun getitem :: "pyobj \<Rightarrow> int \<Rightarrow> exn + pyobj" where
  "getitem PyNone i = Inl TypeError"
| "getitem (PyInt n) i = Inl TypeError"
| "getitem (PyStr s) i = list_getitem (map (\<lambda>c. PyStr [c]) s) i"
| "getitem (PyList xs) i = list_getitem xs i"
| "getitem (PyDict kvs) i = Inl KeyError"
| "getitem (Listing cs a) i = list_getitem cs i"

fun after_attr :: "pyobj \<Rightarrow> exn + string option" where
  "after_attr (Listing cs a) = Inr a"
| "after_attr other = Inl AttributeError"

text \<open>The cursor as a Python value, to test and compare it.\<close>

fun after_obj :: "string option \<Rightarrow> pyobj" where
  "after_obj None = PyNone"
| "after_obj (Some s) = PyStr s"

section \<open>The collaborators and the object store\<close>

text \<open>
  Modelled from the spec: the class \<^verbatim>\<open>FlairListing\<close> (module \<^verbatim>\<open>.listing\<close>) is not
  part of the source at hand. The spec says of a keyed response: "wrap it as a
  specialized page type whose items are flair-listing-style entries (a distinct item
  shape from ordinary listings, but exposing the same ordered-items/\<^verbatim>\<open>after\<close>
  contract)". The wrapped page is therefore a \<open>Listing\<close> whose children and cursor
  are read off the dictionary by \<open>flair_users\<close> and \<open>flair_next\<close>, left as parameters.

  \<open>get rd n u d\<close> is what the \<open>n\<close>-th call of \<^verbatim>\<open>self._reddit.get(url, params=...)\<close>
  answers to the URL \<open>u\<close> and the parameters \<open>d\<close>: a decoded response, or the exception
  it raises. Numbering the calls lets one value script any server.
\<close>

record reddit =
  get :: "nat \<Rightarrow> string \<Rightarrow> dict \<Rightarrow> exn + pyobj"
  flair_users :: "dict \<Rightarrow> pyobj list"
  flair_next :: "dict \<Rightarrow> string option"

text \<open>
  The store: the dictionaries by address (the caller's \<^verbatim>\<open>params\<close> and the
  generator's own copy are two objects), the next free address, and the number of
  \<^verbatim>\<open>get\<close> calls made so far.
\<close>

record world =
  heap :: "nat \<Rightarrow> dict"
  next_addr :: nat
  gets :: nat

text \<open>The fields of \<^verbatim>\<open>ListingGenerator\<close>; \<open>params\<close> is the address of its dictionary,
  \<open>listing\<close> is \<open>PyNone\<close> before the first fetch.\<close>

record ListingGenerator =
  exhausted :: bool
  listing :: pyobj
  list_index :: "int option"
  limit :: "int option"
  params :: nat
  url :: string
  yielded :: int

section \<open>The generator\<close>

text \<open>\<^verbatim>\<open>__init__(reddit, url, limit, params)\<close>. The argument \<open>p\<close> is \<^verbatim>\<open>None\<close> or the
  address of the caller's dictionary. \<^verbatim>\<open>deepcopy(params) if params else {}\<close>
  allocates a new dictionary in both branches; \<^verbatim>\<open>limit or 1024\<close> takes 1024 for
  \<^verbatim>\<open>None\<close> and for 0.\<close>

definition init :: "world \<Rightarrow> string \<Rightarrow> int option \<Rightarrow> nat option \<Rightarrow> world \<times> ListingGenerator" where
  "init w u lim p =
     (let d = (case p of None \<Rightarrow> []
               | Some c \<Rightarrow> (if heap w c \<noteq> [] then heap w c else []));
          a = next_addr w;
          hint = (case lim of None \<Rightarrow> 1024 | Some n \<Rightarrow> (if n = 0 then 1024 else n))
      in (w\<lparr>heap := (heap w)(a := dict_set ''limit'' (PyInt hint) d), next_addr := a + 1\<rparr>,
          \<lparr>exhausted = False, listing = PyNone, list_index = None, limit = lim,
           params = a, url = u, yielded = 0\<rparr>))"

text \<open>The normalisation of the response in \<^verbatim>\<open>_next_batch\<close>: element 1 of a list,
  a \<^verbatim>\<open>FlairListing\<close> around a dictionary, anything else as it is.\<close>

fun unwrap :: "reddit \<Rightarrow> pyobj \<Rightarrow> exn + pyobj" where
  "unwrap rd (PyList xs) = list_getitem xs 1"
| "unwrap rd (PyDict d) = Inr (Listing (flair_users rd d) (flair_next rd d))"
| "unwrap rd r = Inr r"

text \<open>\<^verbatim>\<open>_next_batch\<close>. Each \<^verbatim>\<open>raise\<close> leaves the fields as the statements before it
  set them.\<close>

definition next_batch ::
  "reddit \<Rightarrow> world \<times> ListingGenerator \<Rightarrow> (exn + unit) \<times> world \<times> ListingGenerator" where
  "next_batch rd s =
     (case s of (w, g) \<Rightarrow>
        if exhausted g then (Inl StopIteration, w, g)
        else
          (let w1 = w\<lparr>gets := gets w + 1\<rparr> in
           case get rd (gets w) (url g) (heap w (params g)) of
             Inl e \<Rightarrow> (Inl e, w1, g)
           | Inr r \<Rightarrow>
               (case unwrap rd r of
                  Inl e \<Rightarrow> (Inl e, w1, g\<lparr>listing := r\<rparr>)
                | Inr pg \<Rightarrow>
                    (let g2 = g\<lparr>listing := pg, list_index := Some 0\<rparr> in
                     if \<not> truthy pg then (Inl StopIteration, w1, g2)
                     else
                       (case after_attr pg of
                          Inl e \<Rightarrow> (Inl e, w1, g2)
                        | Inr a \<Rightarrow>
                            if truthy (after_obj a)
                               \<and> after_obj a \<noteq> dict_get ''after'' (heap w1 (params g2))
                            then (Inr (),
                                  w1\<lparr>heap := (heap w1)(params g2 :=
                                     dict_set ''after'' (after_obj a) (heap w1 (params g2)))\<rparr>,
                                  g2)
                            else (Inr (), w1, g2\<lparr>exhausted := True\<rparr>))))))"

text \<open>The test \<^verbatim>\<open>self._listing is None or self._list_index >= len(self._listing)\<close>;
  comparing \<^verbatim>\<open>None\<close> with a number, and \<^verbatim>\<open>len\<close> of an object without a length,
  raise \<^verbatim>\<open>TypeError\<close>.\<close>

definition needs_batch :: "ListingGenerator \<Rightarrow> exn + bool" where
  "needs_batch g =
     (if listing g = PyNone then Inr True
      else (case len (listing g) of
              Inl e \<Rightarrow> Inl e
            | Inr n \<Rightarrow> (case list_index g of None \<Rightarrow> Inl TypeError | Some i \<Rightarrow> Inr (i \<ge> n))))"

text \<open>\<^verbatim>\<open>__next__\<close>: the item or the exception, and the state the call leaves.\<close>

definition dnext ::
  "reddit \<Rightarrow> world \<times> ListingGenerator \<Rightarrow> (exn + pyobj) \<times> world \<times> ListingGenerator" where
  "dnext rd s =
     (case s of (w, g) \<Rightarrow>
        if limit g \<noteq> None \<and> yielded g \<ge> the (limit g) then (Inl StopIteration, w, g)
        else
          (case needs_batch g of
             Inl e \<Rightarrow> (Inl e, w, g)
           | Inr b \<Rightarrow>
               (case (if b then next_batch rd (w, g) else (Inr (), w, g)) of
                  (Inl e, w1, g1) \<Rightarrow> (Inl e, w1, g1)
                | (Inr u, w1, g1) \<Rightarrow>
                    (case list_index g1 of
                       None \<Rightarrow> (Inl TypeError, w1, g1)
                     | Some i \<Rightarrow>
                         (let g2 = g1\<lparr>list_index := Some (i + 1), yielded := yielded g1 + 1\<rparr>
                          in (getitem (listing g2) (i + 1 - 1), w1, g2))))))"

text \<open>\<open>n\<close> successive calls of \<^verbatim>\<open>__next__\<close> on one generator, with their outcomes.\<close>

fun run ::
  "reddit \<Rightarrow> nat \<Rightarrow> world \<times> ListingGenerator \<Rightarrow> (exn + pyobj) list \<times> world \<times> ListingGenerator" where
  "run rd 0 s = ([], s)"
| "run rd (Suc n) s =
     (case dnext rd s of (r, s1) \<Rightarrow> (case run rd n s1 of (rs, s2) \<Rightarrow> (r # rs, s2)))"

section \<open>Observations on states, responses and runs\<close>

text \<open>The items among the outcomes of a run, in the order they were handed out.\<close>

fun yields :: "(exn + pyobj) list \<Rightarrow> pyobj list" where
  "yields [] = []"
| "yields (Inl e # rs) = yields rs"
| "yields (Inr x # rs) = x # yields rs"

text \<open>The test \<^verbatim>\<open>isinstance(x, dict)\<close> of \<^verbatim>\<open>_next_batch\<close>, and whether a value is
  a \<open>Listing\<close> object.\<close>

fun isinstance_dict :: "pyobj \<Rightarrow> bool" where
  "isinstance_dict (PyDict d) = True"
| "isinstance_dict other = False"

fun is_listing :: "pyobj \<Rightarrow> bool" where
  "is_listing (Listing cs a) = True"
| "is_listing other = False"

text \<open>The index is within the current page, its end included: there is no page yet,
  or \<open>0 \<le> list_index \<le> len(listing)\<close>.\<close>

definition index_valid :: "ListingGenerator \<Rightarrow> bool" where
  "index_valid g =
     (listing g = PyNone \<or>
      (case (len (listing g), list_index g) of
         (Inr n, Some i) \<Rightarrow> 0 \<le> i \<and> i \<le> n
       | other \<Rightarrow> False))"

text \<open>An answer of \<^verbatim>\<open>get\<close> that leaves a page in \<^verbatim>\<open>_listing\<close>: an exception
  (nothing is stored), a \<open>Listing\<close>, a list whose element 1 is a \<open>Listing\<close>, or a
  dictionary.\<close>

fun page_response :: "exn + pyobj \<Rightarrow> bool" where
  "page_response (Inl e) = True"
| "page_response (Inr (PyList xs)) =
     (case list_getitem xs 1 of Inr pg \<Rightarrow> is_listing pg | Inl e \<Rightarrow> False)"
| "page_response (Inr (PyDict d)) = True"
| "page_response (Inr r) = is_listing r"

section \<open>Sample collaborators\<close>

text \<open>A store with no object and no call made, and a server that answers its
  \<open>n\<close>-th call with the \<open>n\<close>-th entry of a script and with an empty page after
  the script's end.\<close>

definition empty_world :: world where
  "empty_world = \<lparr>heap = (\<lambda>a. []), next_addr = 0, gets = 0\<rparr>"

definition scripted :: "(exn + pyobj) list \<Rightarrow> reddit" where
  "scripted rs =
     \<lparr>get = (\<lambda>n u d. if n < length rs then rs ! n else Inr (Listing [] None)),
      flair_users = (\<lambda>d. []), flair_next = (\<lambda>d. None)\<rparr>"

section \<open>Facts about dictionaries and the refill\<close>

lemma map_of_dict_set: "map_of (dict_set k v d) = (map_of d)(k \<mapsto> v)"
  by (induction d) auto

lemma dict_get_set: "dict_get k' (dict_set k v d) = (if k' = k then v else dict_get k' d)"
  by (simp add: dict_get_def map_of_dict_set)

lemma next_batch_frame:
  assumes "next_batch rd (w, g) = (r, w', g')"
  shows "limit g' = limit g" "params g' = params g" "url g' = url g"
        "yielded g' = yielded g" "next_addr w' = next_addr w"
  using assms
  by (auto simp: next_batch_def Let_def split: if_splits sum.splits)

lemma next_batch_heap_frame:
  assumes "next_batch rd (w, g) = (r, w', g')" and "b \<noteq> params g"
  shows "heap w' b = heap w b"
  using assms
  by (auto simp: next_batch_def Let_def split: if_splits sum.splits)

lemma next_batch_exhausted_mono:
  assumes "next_batch rd (w, g) = (r, w', g')" and "exhausted g"
  shows "exhausted g'"
  using assms
  by (auto simp: next_batch_def Let_def split: if_splits sum.splits)

lemma next_batch_exhausted:
  "exhausted g \<Longrightarrow> next_batch rd (w, g) = (Inl StopIteration, w, g)"
  by (simp add: next_batch_def)

lemma next_batch_success:
  assumes "next_batch rd (w, g) = (Inr (), w', g')"
  obtains r cs a where "\<not> exhausted g"
    and "get rd (gets w) (url g) (heap w (params g)) = Inr r"
    and "unwrap rd r = Inr (Listing cs a)" and "cs \<noteq> []"
    and "g' = g\<lparr>listing := Listing cs a, list_index := Some 0,
                 exhausted := \<not> (truthy (after_obj a)
                     \<and> after_obj a \<noteq> dict_get ''after'' (heap w (params g)))\<rparr>"
    and "w' = (if truthy (after_obj a) \<and> after_obj a \<noteq> dict_get ''after'' (heap w (params g))
               then w\<lparr>gets := gets w + 1,
                      heap := (heap w)(params g := dict_set ''after'' (after_obj a) (heap w (params g)))\<rparr>
               else w\<lparr>gets := gets w + 1\<rparr>)"
proof -
  from assms have ne: "\<not> exhausted g" by (auto simp: next_batch_def)
  from assms ne obtain r where r: "get rd (gets w) (url g) (heap w (params g)) = Inr r"
    by (cases "get rd (gets w) (url g) (heap w (params g))") (auto simp: next_batch_def Let_def)
  from assms ne r obtain pg where pg: "unwrap rd r = Inr pg"
    by (cases "unwrap rd r") (auto simp: next_batch_def Let_def)
  from assms ne r pg have tr: "truthy pg"
    by (auto simp: next_batch_def Let_def split: if_splits)
  from assms ne r pg tr obtain a where a: "after_attr pg = Inr a"
    by (cases "after_attr pg") (auto simp: next_batch_def Let_def)
  then obtain cs where cs: "pg = Listing cs a" by (cases pg) auto
  with tr have nonempty: "cs \<noteq> []" by simp
  from assms ne r pg tr a cs have
    "g' = g\<lparr>listing := Listing cs a, list_index := Some 0,
                 exhausted := \<not> (truthy (after_obj a)
                     \<and> after_obj a \<noteq> dict_get ''after'' (heap w (params g)))\<rparr>"
    "w' = (if truthy (after_obj a) \<and> after_obj a \<noteq> dict_get ''after'' (heap w (params g))
               then w\<lparr>gets := gets w + 1,
                      heap := (heap w)(params g := dict_set ''after'' (after_obj a) (heap w (params g)))\<rparr>
               else w\<lparr>gets := gets w + 1\<rparr>)"
    by (auto simp: next_batch_def Let_def split: if_splits)
  with ne r pg cs nonempty show ?thesis by (intro that[of r cs a]) simp_all
qed

lemma next_batch_page:
  assumes "\<not> exhausted g"
    and "get rd (gets w) (url g) (heap w (params g)) = Inr r"
    and "unwrap rd r = Inr (Listing cs a)" and "cs \<noteq> []"
  shows "next_batch rd (w, g) =
     (Inr (),
      (if truthy (after_obj a) \<and> after_obj a \<noteq> dict_get ''after'' (heap w (params g))
       then w\<lparr>gets := gets w + 1,
              heap := (heap w)(params g := dict_set ''after'' (after_obj a) (heap w (params g)))\<rparr>
       else w\<lparr>gets := gets w + 1\<rparr>),
      g\<lparr>listing := Listing cs a, list_index := Some 0,
        exhausted := \<not> (truthy (after_obj a)
                     \<and> after_obj a \<noteq> dict_get ''after'' (heap w (params g)))\<rparr>)"
  using assms by (auto simp: next_batch_def Let_def)

lemma next_batch_unwrapped:
  assumes "\<not> exhausted g" and "get rd (gets w) (url g) (heap w (params g)) = Inr r"
    and "unwrap rd r = Inr pg"
  shows "listing (snd (snd (next_batch rd (w, g)))) = pg"
    and "list_index (snd (snd (next_batch rd (w, g)))) = Some 0"
    and "gets (fst (snd (next_batch rd (w, g)))) = gets w + 1"
    and "fst (next_batch rd (w, g)) =
           (if \<not> truthy pg then Inl StopIteration
            else case after_attr pg of Inl e \<Rightarrow> Inl e | Inr a \<Rightarrow> Inr ())"
  using assms by (auto simp: next_batch_def Let_def split: sum.splits)

section \<open>Facts about one call of next\<close>

text \<open>The five ways a call of \<^verbatim>\<open>__next__\<close> can go: the limit is reached, the
  test for a refill raises, the refill raises, the index is missing, an item is read.\<close>

lemma dnext_cases:
  assumes "dnext rd (w, g) = (r, w', g')"
  obtains
    (limit_hit) N where "limit g = Some N" "N \<le> yielded g" "r = Inl StopIteration" "w' = w" "g' = g"
  | (len_error) e where "needs_batch g = Inl e" "r = Inl e" "w' = w" "g' = g"
      "limit g = None \<or> yielded g < the (limit g)"
  | (batch_error) e where "needs_batch g = Inr True" "next_batch rd (w, g) = (Inl e, w', g')" "r = Inl e"
      "limit g = None \<or> yielded g < the (limit g)"
  | (index_error) g1 b where "needs_batch g = Inr b"
      "(if b then next_batch rd (w, g) else (Inr (), w, g)) = (Inr (), w', g1)"
      "list_index g1 = None" "r = Inl TypeError" "g' = g1"
      "limit g = None \<or> yielded g < the (limit g)"
  | (item) g1 b i where "needs_batch g = Inr b"
      "(if b then next_batch rd (w, g) else (Inr (), w, g)) = (Inr (), w', g1)"
      "list_index g1 = Some i" "r = getitem (listing g1) i"
      "g' = g1\<lparr>list_index := Some (i + 1), yielded := yielded g1 + 1\<rparr>"
      "limit g = None \<or> yielded g < the (limit g)"
proof (cases "limit g \<noteq> None \<and> yielded g \<ge> the (limit g)")
  case True
  then obtain N where N: "limit g = Some N" "N \<le> yielded g" by auto
  from assms N have "r = Inl StopIteration \<and> w' = w \<and> g' = g" by (auto simp: dnext_def)
  with N show ?thesis by (intro limit_hit) simp_all
next
  case False
  then have lim: "limit g = None \<or> yielded g < the (limit g)" by auto
  show ?thesis
  proof (cases "needs_batch g")
    case (Inl e)
    with assms False have "r = Inl e \<and> w' = w \<and> g' = g" by (auto simp: dnext_def)
    with Inl lim show ?thesis by (intro len_error) simp_all
  next
    case (Inr b)
    obtain rb wb gb where nb: "(if b then next_batch rd (w, g) else (Inr (), w, g)) = (rb, wb, gb)"
      by (metis prod_cases3)
    show ?thesis
    proof (cases rb)
      case (Inl e)
      with assms False Inr nb have eq: "r = Inl e \<and> w' = wb \<and> g' = gb" by (auto simp: dnext_def)
      from nb Inl have b: "b" by (simp split: if_splits)
      with nb Inl eq have "next_batch rd (w, g) = (Inl e, w', g')" by simp
      with Inr b eq lim show ?thesis by (intro batch_error) simp_all
    next
      case rbr: (Inr u)
      show ?thesis
      proof (cases "list_index gb")
        case None
        with assms False Inr nb rbr have eq: "r = Inl TypeError \<and> w' = wb \<and> g' = gb"
          by (auto simp: dnext_def)
        with Inr nb rbr None lim show ?thesis by (intro index_error[of b gb]) simp_all
      next
        case (Some i)
        with assms False Inr nb rbr have eq: "r = getitem (listing gb) i \<and> w' = wb \<and>
          g' = gb\<lparr>list_index := Some (i + 1), yielded := yielded gb + 1\<rparr>"
          by (auto simp: dnext_def Let_def)
        with Inr nb rbr Some lim show ?thesis by (intro item[of b gb i]) simp_all
      qed
    qed
  qed
qed

lemma dnext_frame:
  assumes "dnext rd (w, g) = (r, w', g')"
  shows "limit g' = limit g" "params g' = params g" "url g' = url g" "next_addr w' = next_addr w"
  using assms
  by (cases rule: dnext_cases; auto dest: next_batch_frame split: if_splits)+

lemma dnext_heap_frame:
  assumes "dnext rd (w, g) = (r, w', g')" and "b \<noteq> params g"
  shows "heap w' b = heap w b"
  using assms
  by (cases rule: dnext_cases) (auto dest: next_batch_heap_frame split: if_splits)

lemma dnext_exhausted_mono:
  assumes "dnext rd (w, g) = (r, w', g')" and "exhausted g"
  shows "exhausted g'"
  using assms
  by (cases rule: dnext_cases) (auto dest: next_batch_exhausted_mono split: if_splits)

lemma dnext_yielded:
  assumes "dnext rd (w, g) = (r, w', g')"
  shows "yielded g \<le> yielded g'"
    and "r = Inr x \<Longrightarrow> yielded g' = yielded g + 1"
    and "limit g = Some N \<Longrightarrow> yielded g \<le> N \<Longrightarrow> yielded g' \<le> N"
  using assms
  by (cases rule: dnext_cases; auto dest: next_batch_frame split: if_splits)+

lemma dnext_limit_hit:
  "limit g = Some N \<Longrightarrow> N \<le> yielded g \<Longrightarrow> dnext rd (w, g) = (Inl StopIteration, w, g)"
  by (simp add: dnext_def)

lemma dnext_in_page:
  assumes "listing g = Listing cs a" and "list_index g = Some i" and "0 \<le> i"
    and "i < int (length cs)" and "limit g = None \<or> yielded g < the (limit g)"
  shows "dnext rd (w, g) =
           (Inr (cs ! nat i), w, g\<lparr>list_index := Some (i + 1), yielded := yielded g + 1\<rparr>)"
  using assms
  by (auto simp: dnext_def needs_batch_def list_getitem_def Let_def)

lemma dnext_refill:
  assumes "needs_batch g = Inr True" and "limit g = None \<or> yielded g < the (limit g)"
    and "next_batch rd (w, g) = (Inr (), w1, g1)" and "list_index g1 = Some i"
  shows "dnext rd (w, g) =
          (getitem (listing g1) i, w1, g1\<lparr>list_index := Some (i + 1), yielded := yielded g1 + 1\<rparr>)"
  using assms by (auto simp: dnext_def Let_def)

lemma dnext_listing:
  assumes "needs_batch g = Inr True" and "limit g = None \<or> yielded g < the (limit g)"
  shows "listing (snd (snd (dnext rd (w, g)))) = listing (snd (snd (next_batch rd (w, g))))"
    and "gets (fst (snd (dnext rd (w, g)))) = gets (fst (snd (next_batch rd (w, g))))"
  using assms
  by (auto simp: dnext_def Let_def split: sum.splits prod.splits option.splits)

section \<open>Facts about runs\<close>

lemma run_Suc:
  assumes "run rd (Suc n) (w, g) = (rs, w', g')"
  obtains r w1 g1 rs1 where "dnext rd (w, g) = (r, w1, g1)" "run rd n (w1, g1) = (rs1, w', g')"
    "rs = r # rs1"
  using assms by (auto split: prod.splits)

lemma run_frame:
  assumes "run rd n (w, g) = (rs, w', g')"
  shows "limit g' = limit g \<and> params g' = params g \<and> url g' = url g \<and> next_addr w' = next_addr w"
  using assms
proof (induction n arbitrary: w g rs)
  case 0
  then show ?case by simp
next
  case (Suc n)
  from Suc.prems obtain r w1 g1 rs1 where
    d: "dnext rd (w, g) = (r, w1, g1)" and t: "run rd n (w1, g1) = (rs1, w', g')"
    by (rule run_Suc)
  from Suc.IH[OF t] dnext_frame[OF d] show ?case by simp
qed

lemma run_heap_frame:
  assumes "run rd n (w, g) = (rs, w', g')" and "b \<noteq> params g"
  shows "heap w' b = heap w b"
  using assms
proof (induction n arbitrary: w g rs)
  case 0
  then show ?case by simp
next
  case (Suc n)
  from Suc.prems(1) obtain r w1 g1 rs1 where
    d: "dnext rd (w, g) = (r, w1, g1)" and t: "run rd n (w1, g1) = (rs1, w', g')"
    by (rule run_Suc)
  from dnext_frame(2)[OF d] Suc.prems(2) have "b \<noteq> params g1" by simp
  from Suc.IH[OF t this] dnext_heap_frame[OF d Suc.prems(2)] show ?case by simp
qed

lemma run_exhausted_mono:
  assumes "run rd n (w, g) = (rs, w', g')" and "exhausted g"
  shows "exhausted g'"
  using assms
proof (induction n arbitrary: w g rs)
  case 0
  then show ?case by simp
next
  case (Suc n)
  from Suc.prems(1) obtain r w1 g1 rs1 where
    d: "dnext rd (w, g) = (r, w1, g1)" and t: "run rd n (w1, g1) = (rs1, w', g')"
    by (rule run_Suc)
  from Suc.IH[OF t dnext_exhausted_mono[OF d Suc.prems(2)]] show ?case .
qed

lemma run_yielded:
  assumes "run rd n (w, g) = (rs, w', g')"
  shows "yielded g + int (length (yields rs)) \<le> yielded g'"
  using assms
proof (induction n arbitrary: w g rs)
  case 0
  then show ?case by simp
next
  case (Suc n)
  from Suc.prems(1) obtain r w1 g1 rs1 where
    d: "dnext rd (w, g) = (r, w1, g1)" and t: "run rd n (w1, g1) = (rs1, w', g')"
    and rs: "rs = r # rs1"
    by (rule run_Suc)
  from Suc.IH[OF t] have ih: "yielded g1 + int (length (yields rs1)) \<le> yielded g'" .
  show ?case
  proof (cases r)
    case (Inl e)
    with ih dnext_yielded(1)[OF d] rs show ?thesis by simp
  next
    case (Inr x)
    with ih dnext_yielded(2)[OF d Inr] rs show ?thesis by simp
  qed
qed

lemma run_yielded_le:
  assumes "run rd n (w, g) = (rs, w', g')" and "limit g = Some N" and "yielded g \<le> N"
  shows "yielded g' \<le> N"
  using assms
proof (induction n arbitrary: w g rs)
  case 0
  then show ?case by simp
next
  case (Suc n)
  from Suc.prems(1) obtain r w1 g1 rs1 where
    d: "dnext rd (w, g) = (r, w1, g1)" and t: "run rd n (w1, g1) = (rs1, w', g')"
    by (rule run_Suc)
  from dnext_frame(1)[OF d] Suc.prems(2) have "limit g1 = Some N" by simp
  from Suc.IH[OF t this dnext_yielded(3)[OF d Suc.prems(2) Suc.prems(3)]] show ?case .
qed

lemma run_limit_hit:
  assumes "limit g = Some N" and "N \<le> yielded g"
  shows "run rd n (w, g) = (replicate n (Inl StopIteration), w, g)"
  using assms by (induction n) (simp_all add: dnext_limit_hit)

lemma run_page:
  assumes "listing g = Listing cs a" and "list_index g = Some i" and "0 \<le> i"
    and "i + int k \<le> int (length cs)"
    and "limit g = None \<or> yielded g + int k \<le> the (limit g)"
  shows "run rd k (w, g) =
           (map Inr (take k (drop (nat i) cs)), w,
            g\<lparr>list_index := Some (i + int k), yielded := yielded g + int k\<rparr>)"
  using assms
proof (induction k arbitrary: g i)
  case 0
  then show ?case by simp
next
  case (Suc k)
  let ?g1 = "g\<lparr>list_index := Some (i + 1), yielded := yielded g + 1\<rparr>"
  from Suc.prems have lt: "i < int (length cs)" and lim: "limit g = None \<or> yielded g < the (limit g)"
    by auto
  have d: "dnext rd (w, g) = (Inr (cs ! nat i), w, ?g1)"
    by (rule dnext_in_page[OF Suc.prems(1,2,3) lt lim])
  have t: "run rd k (w, ?g1) =
      (map Inr (take k (drop (nat (i + 1)) cs)), w,
       ?g1\<lparr>list_index := Some (i + 1 + int k), yielded := yielded ?g1 + int k\<rparr>)"
    using Suc.prems by (intro Suc.IH) auto
  from Suc.prems(3) lt have n: "nat i < length cs" "nat (i + 1) = Suc (nat i)" by auto
  have "take (Suc k) (drop (nat i) cs) = cs ! nat i # take k (drop (nat (i + 1)) cs)"
    using n by (simp add: Cons_nth_drop_Suc[symmetric])
  with d t show ?case by (simp add: add.assoc add.commute)
qed

lemma run_refill_page:
  assumes nb: "needs_batch g = Inr True" and ne: "\<not> exhausted g"
    and r: "get rd (gets w) (url g) (heap w (params g)) = Inr r"
    and pg: "unwrap rd r = Inr (Listing cs a)"
    and k: "0 < k" "k \<le> length cs"
    and lim: "limit g = None \<or> yielded g + int k \<le> the (limit g)"
  shows "fst (run rd k (w, g)) = map Inr (take k cs)"
    and "listing (snd (snd (run rd k (w, g)))) = Listing cs a"
    and "gets (fst (snd (run rd k (w, g)))) = gets w + 1"
    and "list_index (snd (snd (run rd k (w, g)))) = Some (int k)"
proof -
  from k obtain j where j: "k = Suc j" by (cases k) auto
  from k have cs: "cs \<noteq> []" by auto
  obtain w1 g1 where b: "next_batch rd (w, g) = (Inr (), w1, g1)"
    and g1: "g1 = g\<lparr>listing := Listing cs a, list_index := Some 0,
        exhausted := \<not> (truthy (after_obj a)
                     \<and> after_obj a \<noteq> dict_get ''after'' (heap w (params g)))\<rparr>"
    and w1: "gets w1 = gets w + 1"
    using next_batch_page[OF ne r pg cs] by (auto split: if_splits)
  let ?g2 = "g1\<lparr>list_index := Some (0 + 1), yielded := yielded g1 + 1\<rparr>"
  from lim j have lim0: "limit g = None \<or> yielded g < the (limit g)" by auto
  from g1 have i0: "list_index g1 = Some 0" by simp
  have d: "dnext rd (w, g) = (getitem (listing g1) 0, w1, ?g2)"
    by (rule dnext_refill[OF nb lim0 b i0])
  from g1 cs have item: "getitem (listing g1) 0 = Inr (cs ! 0)"
    by (simp add: list_getitem_def)
  have t: "run rd j (w1, ?g2) =
      (map Inr (take j (drop (nat 1) cs)), w1,
       ?g2\<lparr>list_index := Some (1 + int j), yielded := yielded ?g2 + int j\<rparr>)"
    using g1 k j lim by (intro run_page[where a = a]) auto
  from cs have "take (Suc j) cs = cs ! 0 # take j (drop (nat 1) cs)"
    by (cases cs) simp_all
  with d item t j show "fst (run rd k (w, g)) = map Inr (take k cs)" by simp
  from d item t j g1 show "listing (snd (snd (run rd k (w, g)))) = Listing cs a" by simp
  from d item t j w1 show "gets (fst (snd (run rd k (w, g)))) = gets w + 1" by simp
  from d item t j show "list_index (snd (snd (run rd k (w, g)))) = Some (int k)" by simp
qed

section \<open>The index stays within the page\<close>

lemma unwrap_is_listing:
  assumes "page_response (Inr r)"
  shows "\<exists>cs a. unwrap rd r = Inr (Listing cs a)"
proof (cases r)
  case (PyList xs)
  with assms obtain pg where "list_getitem xs 1 = Inr pg" "is_listing pg"
    by (auto split: sum.splits)
  then show ?thesis using PyList by (cases pg) auto
qed (use assms in auto)

lemma next_batch_index_valid:
  assumes "page_response (get rd (gets w) (url g) (heap w (params g)))"
    and "index_valid g" and "next_batch rd (w, g) = (res, w', g')"
  shows "index_valid g'" and "res = Inr () \<Longrightarrow> \<exists>cs a. listing g' = Listing cs a \<and> cs \<noteq> [] \<and> list_index g' = Some 0"
proof -
  show "index_valid g'"
  proof (cases "exhausted g")
    case True
    with assms show ?thesis by (simp add: next_batch_def)
  next
    case ne: False
    show ?thesis
    proof (cases "get rd (gets w) (url g) (heap w (params g))")
      case (Inl e)
      with assms ne show ?thesis by (auto simp: next_batch_def Let_def)
    next
      case (Inr r)
      with assms(1) obtain cs a where u: "unwrap rd r = Inr (Listing cs a)"
        using unwrap_is_listing by fastforce
      from next_batch_unwrapped(1,2)[OF ne Inr u] assms(3)
      show ?thesis by (simp add: index_valid_def)
    qed
  qed
  show "\<exists>cs a. listing g' = Listing cs a \<and> cs \<noteq> [] \<and> list_index g' = Some 0" if "res = Inr ()"
    using assms(3) that by (auto elim!: next_batch_success)
qed

lemma dnext_index_valid:
  assumes "page_response (get rd (gets w) (url g) (heap w (params g)))"
    and "index_valid g"
  shows "index_valid (snd (snd (dnext rd (w, g))))"
proof -
  obtain r w' g' where d: "dnext rd (w, g) = (r, w', g')" by (metis prod_cases3)
  from d have "index_valid g'"
  proof (cases rule: dnext_cases)
    case (limit_hit N)
    with assms show ?thesis by simp
  next
    case (len_error e)
    with assms show ?thesis by simp
  next
    case (batch_error e)
    from next_batch_index_valid(1)[OF assms batch_error(2)] show ?thesis .
  next
    case (index_error g1 b)
    show ?thesis
    proof (cases b)
      case True
      with index_error next_batch_index_valid(2)[OF assms, of "Inr ()" w' g1] show ?thesis by auto
    next
      case False
      with index_error show ?thesis
        by (auto simp: needs_batch_def split: if_splits sum.splits option.splits)
    qed
  next
    case (item g1 b i)
    show ?thesis
    proof (cases b)
      case True
      with item next_batch_index_valid(2)[OF assms, of "Inr ()" w' g1] show ?thesis
        by (auto simp: index_valid_def Suc_le_eq)
    next
      case False
      with item assms(2) show ?thesis
        by (auto simp: needs_batch_def index_valid_def split: if_splits sum.splits option.splits)
    qed
  qed
  with d show ?thesis by simp
qed

text \<open>The definitions to unfold when a call is evaluated on a concrete input.\<close>

lemmas eval_defs = empty_world_def scripted_def init_def dnext_def next_batch_def needs_batch_def
  list_getitem_def dict_get_def Let_def

section \<open>The claims\<close>

subsection \<open>C1: limit enforcement\<close>

text \<open>
  C1. A generator built with the limit \<open>N\<close> (a number of entries, so \<open>0 \<le> N\<close>) is
  called \<open>n\<close> times, whatever the server answers. Then \<open>0 \<le> yielded \<le> N\<close> holds
  in the state reached, at most \<open>N\<close> of the calls returned an item, and once \<open>N\<close>
  items have been returned the next call raises \<^verbatim>\<open>StopIteration\<close> and leaves the
  store, the count of \<^verbatim>\<open>get\<close> calls included, and the generator as they were: no
  fetch is made.
\<close>

theorem limit_enforcement:
  assumes "0 \<le> N" and "run rd n (init w u (Some N) p) = (rs, w', g')"
  shows "0 \<le> yielded g' \<and> yielded g' \<le> N \<and> int (length (yields rs)) \<le> N
         \<and> (int (length (yields rs)) = N \<or> yielded g' = N
              \<longrightarrow> dnext rd (w', g') = (Inl StopIteration, w', g'))"
proof -
  obtain w0 g0 where i: "init w u (Some N) p = (w0, g0)" by (cases "init w u (Some N) p")
  then have g0: "limit g0 = Some N" "yielded g0 = 0" by (auto simp: init_def Let_def)
  from assms(2) i have r: "run rd n (w0, g0) = (rs, w', g')" by simp
  from run_yielded[OF r] g0 have a: "int (length (yields rs)) \<le> yielded g'" by simp
  from run_yielded_le[OF r g0(1)] g0 assms(1) have b: "yielded g' \<le> N" by simp
  from run_frame[OF r] g0 have l: "limit g' = Some N" by simp
  from a b l show ?thesis by (auto intro: dnext_limit_hit)
qed

theorem limit_enforcement_witness:
  "(0::int) \<le> 1
   \<and> fst (run (scripted [Inr (Listing [PyStr ''t3_a'', PyStr ''t3_b''] None)]) 1
            (init empty_world ''/new'' (Some 1) None)) = [Inr (PyStr ''t3_a'')]
   \<and> fst (dnext (scripted [Inr (Listing [PyStr ''t3_a'', PyStr ''t3_b''] None)])
            (snd (run (scripted [Inr (Listing [PyStr ''t3_a'', PyStr ''t3_b''] None)]) 1
                   (init empty_world ''/new'' (Some 1) None)))) = Inl StopIteration
   \<and> gets (fst (snd (dnext (scripted [Inr (Listing [PyStr ''t3_a'', PyStr ''t3_b''] None)])
            (snd (run (scripted [Inr (Listing [PyStr ''t3_a'', PyStr ''t3_b''] None)]) 1
                   (init empty_world ''/new'' (Some 1) None)))))) = 1"
proof -
  let ?rd = "scripted [Inr (Listing [PyStr ''t3_a'', PyStr ''t3_b''] None)]"
  let ?R = "run ?rd 1 (init empty_world ''/new'' (Some 1) None)"
  have h: "(0::int) \<le> 1" by simp
  have r: "run ?rd 1 (init empty_world ''/new'' (Some 1) None) = (fst ?R, fst (snd ?R), snd (snd ?R))"
    by simp
  have e: "fst ?R = [Inr (PyStr ''t3_a'')]" "gets (fst (snd ?R)) = 1"
    by (simp_all add: eval_defs)
  from limit_enforcement[OF h r] e show ?thesis by simp
qed

subsection \<open>C2: cursor advancement\<close>

text \<open>
  C2. A refill returns normally exactly when the generator is not exhausted and the
  fetch answers with a response that \<open>unwrap\<close> normalises to a non-empty page.
  Whenever that is the case the refill does return normally, with one fetch made and
  the page as the current page at index 0. If the page's \<^verbatim>\<open>after\<close> is neither
  \<^verbatim>\<open>None\<close> nor empty and differs from \<^verbatim>\<open>params.get("after")\<close>, then
  \<^verbatim>\<open>params["after"]\<close> becomes that cursor, nothing else in the store changes and the
  generator stays not exhausted; otherwise (\<^verbatim>\<open>after\<close> is \<^verbatim>\<open>None\<close>, empty or the
  stored value) the generator becomes exhausted and no dictionary of the store
  changes. In both cases the next \<open>k\<close> calls, for every \<open>k\<close> up to the page's
  length that the limit allows, return the first \<open>k\<close> items of the page in order and
  change nothing but the index and the count.
\<close>

theorem cursor_advancement:
  assumes "next_batch rd (w, g) = (res, w', g')"
  shows "(res = Inr () \<longrightarrow>
            \<not> exhausted g
            \<and> (\<exists>r cs a. get rd (gets w) (url g) (heap w (params g)) = Inr r
                  \<and> unwrap rd r = Inr (Listing cs a) \<and> cs \<noteq> []))
         \<and> (\<forall>r cs a.
              \<not> exhausted g
              \<and> get rd (gets w) (url g) (heap w (params g)) = Inr r
              \<and> unwrap rd r = Inr (Listing cs a) \<and> cs \<noteq> []
              \<longrightarrow>
              res = Inr ()
              \<and> listing g' = Listing cs a \<and> list_index g' = Some 0 \<and> params g' = params g
              \<and> gets w' = gets w + 1
              \<and> (if a \<noteq> None \<and> a \<noteq> Some []
                     \<and> after_obj a \<noteq> dict_get ''after'' (heap w (params g))
                  then dict_get ''after'' (heap w' (params g)) = after_obj a
                       \<and> heap w' = (heap w)(params g :=
                             dict_set ''after'' (after_obj a) (heap w (params g)))
                       \<and> \<not> exhausted g'
                  else exhausted g' \<and> heap w' = heap w)
              \<and> (\<forall>k. k \<le> length cs
                       \<and> (limit g' = None \<or> yielded g' + int k \<le> the (limit g'))
                    \<longrightarrow> run rd k (w', g') =
                          (map Inr (take k cs), w',
                           g'\<lparr>list_index := Some (int k), yielded := yielded g' + int k\<rparr>)))"
proof -
  have bwd: "\<not> exhausted g
            \<and> (\<exists>r cs a. get rd (gets w) (url g) (heap w (params g)) = Inr r
                  \<and> unwrap rd r = Inr (Listing cs a) \<and> cs \<noteq> [])" if "res = Inr ()"
    using assms that by (auto elim!: next_batch_success)
  have fwd: "res = Inr ()
              \<and> listing g' = Listing cs a \<and> list_index g' = Some 0 \<and> params g' = params g
              \<and> gets w' = gets w + 1
              \<and> (if a \<noteq> None \<and> a \<noteq> Some []
                     \<and> after_obj a \<noteq> dict_get ''after'' (heap w (params g))
                  then dict_get ''after'' (heap w' (params g)) = after_obj a
                       \<and> heap w' = (heap w)(params g :=
                             dict_set ''after'' (after_obj a) (heap w (params g)))
                       \<and> \<not> exhausted g'
                  else exhausted g' \<and> heap w' = heap w)
              \<and> (\<forall>k. k \<le> length cs
                       \<and> (limit g' = None \<or> yielded g' + int k \<le> the (limit g'))
                    \<longrightarrow> run rd k (w', g') =
                          (map Inr (take k cs), w',
                           g'\<lparr>list_index := Some (int k), yielded := yielded g' + int k\<rparr>))"
    if ne: "\<not> exhausted g"
      and r: "get rd (gets w) (url g) (heap w (params g)) = Inr r"
      and pg: "unwrap rd r = Inr (Listing cs a)" and cs: "cs \<noteq> []" for r cs a
  proof -
    have tr: "truthy (after_obj a) \<longleftrightarrow> a \<noteq> None \<and> a \<noteq> Some []"
      by (cases a) auto
    from next_batch_page[OF ne r pg cs] assms have res: "res = Inr ()"
      and g': "g' = g\<lparr>listing := Listing cs a, list_index := Some 0,
                 exhausted := \<not> (truthy (after_obj a)
                     \<and> after_obj a \<noteq> dict_get ''after'' (heap w (params g)))\<rparr>"
      and w': "w' = (if truthy (after_obj a) \<and> after_obj a \<noteq> dict_get ''after'' (heap w (params g))
               then w\<lparr>gets := gets w + 1,
                      heap := (heap w)(params g := dict_set ''after'' (after_obj a) (heap w (params g)))\<rparr>
               else w\<lparr>gets := gets w + 1\<rparr>)"
      by simp_all
    have cursor: "if a \<noteq> None \<and> a \<noteq> Some []
                     \<and> after_obj a \<noteq> dict_get ''after'' (heap w (params g))
                  then dict_get ''after'' (heap w' (params g)) = after_obj a
                       \<and> heap w' = (heap w)(params g :=
                             dict_set ''after'' (after_obj a) (heap w (params g)))
                       \<and> \<not> exhausted g'
                  else exhausted g' \<and> heap w' = heap w"
      using g' w' tr by (auto simp: dict_get_set)
    have pull: "run rd k (w', g') =
                  (map Inr (take k cs), w',
                   g'\<lparr>list_index := Some (int k), yielded := yielded g' + int k\<rparr>)"
      if "k \<le> length cs" "limit g' = None \<or> yielded g' + int k \<le> the (limit g')" for k
      using run_page[of g' cs a 0 k rd w'] that g' by simp
    have "gets w' = gets w + 1" using w' by simp
    with res g' cursor pull show ?thesis by simp
  qed
  from bwd fwd show ?thesis by blast
qed

theorem cursor_advancement_witness:
  "fst (next_batch (scripted [Inr (Listing [PyStr ''t3_a'', PyStr ''t3_b''] (Some ''t3_b''))])
          (init empty_world ''/new'' None None)) = Inr ()
   \<and> heap (fst (snd (next_batch
          (scripted [Inr (Listing [PyStr ''t3_a'', PyStr ''t3_b''] (Some ''t3_b''))])
          (init empty_world ''/new'' None None)))) 0
       = [(''limit'', PyInt 1024), (''after'', PyStr ''t3_b'')]
   \<and> \<not> exhausted (snd (snd (next_batch
          (scripted [Inr (Listing [PyStr ''t3_a'', PyStr ''t3_b''] (Some ''t3_b''))])
          (init empty_world ''/new'' None None))))
   \<and> fst (run (scripted [Inr (Listing [PyStr ''t3_a'', PyStr ''t3_b''] (Some ''t3_b''))]) 2
            (snd (next_batch
               (scripted [Inr (Listing [PyStr ''t3_a'', PyStr ''t3_b''] (Some ''t3_b''))])
               (init empty_world ''/new'' None None))))
       = [Inr (PyStr ''t3_a''), Inr (PyStr ''t3_b'')]
   \<and> fst (next_batch (scripted [Inr (Listing [PyStr ''t3_c''] (Some ''t3_b''))])
          (init \<lparr>heap = (\<lambda>a. if a = 0 then [(''after'', PyStr ''t3_b'')] else []),
                 next_addr = 1, gets = 0\<rparr> ''/new'' None (Some 0))) = Inr ()
   \<and> exhausted (snd (snd (next_batch (scripted [Inr (Listing [PyStr ''t3_c''] (Some ''t3_b''))])
          (init \<lparr>heap = (\<lambda>a. if a = 0 then [(''after'', PyStr ''t3_b'')] else []),
                 next_addr = 1, gets = 0\<rparr> ''/new'' None (Some 0)))))
   \<and> heap (fst (snd (next_batch (scripted [Inr (Listing [PyStr ''t3_c''] (Some ''t3_b''))])
          (init \<lparr>heap = (\<lambda>a. if a = 0 then [(''after'', PyStr ''t3_b'')] else []),
                 next_addr = 1, gets = 0\<rparr> ''/new'' None (Some 0))))) 1
       = [(''after'', PyStr ''t3_b''), (''limit'', PyInt 1024)]
   \<and> fst (run (scripted [Inr (Listing [PyStr ''t3_c''] (Some ''t3_b''))]) 1
            (snd (next_batch (scripted [Inr (Listing [PyStr ''t3_c''] (Some ''t3_b''))])
               (init \<lparr>heap = (\<lambda>a. if a = 0 then [(''after'', PyStr ''t3_b'')] else []),
                      next_addr = 1, gets = 0\<rparr> ''/new'' None (Some 0)))))
       = [Inr (PyStr ''t3_c'')]"
proof -
  let ?rd = "scripted [Inr (Listing [PyStr ''t3_a'', PyStr ''t3_b''] (Some ''t3_b''))]"
  let ?I = "init empty_world ''/new'' None None"
  let ?R = "next_batch ?rd ?I"
  have h: "next_batch ?rd (fst ?I, snd ?I) = (fst ?R, fst (snd ?R), snd (snd ?R))" by simp
  have i: "\<not> exhausted (snd ?I)
      \<and> get ?rd (gets (fst ?I)) (url (snd ?I)) (heap (fst ?I) (params (snd ?I)))
          = Inr (Listing [PyStr ''t3_a'', PyStr ''t3_b''] (Some ''t3_b''))
      \<and> unwrap ?rd (Listing [PyStr ''t3_a'', PyStr ''t3_b''] (Some ''t3_b''))
          = Inr (Listing [PyStr ''t3_a'', PyStr ''t3_b''] (Some ''t3_b''))
      \<and> [PyStr ''t3_a'', PyStr ''t3_b''] \<noteq> []"
    by (simp add: eval_defs)
  have s: "heap (fst ?I) = (\<lambda>a. if a = 0 then [(''limit'', PyInt 1024)] else [])"
    "params (snd ?I) = 0" "limit (snd ?I) = None"
    by (auto simp: eval_defs)
  note a = cursor_advancement[OF h, THEN conjunct2, rule_format, OF i]
  from a s have a1: "fst ?R = Inr ()"
    "heap (fst (snd ?R)) 0 = [(''limit'', PyInt 1024), (''after'', PyStr ''t3_b'')]"
    "\<not> exhausted (snd (snd ?R))"
    by (simp_all add: dict_get_def)
  have l: "limit (snd (snd ?R)) = None" by (simp add: eval_defs)
  from a have "\<forall>k. k \<le> length [PyStr ''t3_a'', PyStr ''t3_b'']
        \<and> (limit (snd (snd ?R)) = None
             \<or> yielded (snd (snd ?R)) + int k \<le> the (limit (snd (snd ?R))))
        \<longrightarrow> run ?rd k (fst (snd ?R), snd (snd ?R)) =
              (map Inr (take k [PyStr ''t3_a'', PyStr ''t3_b'']), fst (snd ?R),
               (snd (snd ?R))\<lparr>list_index := Some (int k),
                               yielded := yielded (snd (snd ?R)) + int k\<rparr>)"
    by blast
  from this[rule_format, of 2] l
  have a2: "fst (run ?rd 2 (snd ?R)) = [Inr (PyStr ''t3_a''), Inr (PyStr ''t3_b'')]"
    by simp
  let ?rd' = "scripted [Inr (Listing [PyStr ''t3_c''] (Some ''t3_b''))]"
  let ?I' = "init \<lparr>heap = (\<lambda>a. if a = 0 then [(''after'', PyStr ''t3_b'')] else []),
                 next_addr = 1, gets = 0\<rparr> ''/new'' None (Some 0)"
  let ?R' = "next_batch ?rd' ?I'"
  have h': "next_batch ?rd' (fst ?I', snd ?I') = (fst ?R', fst (snd ?R'), snd (snd ?R'))" by simp
  have i': "\<not> exhausted (snd ?I')
      \<and> get ?rd' (gets (fst ?I')) (url (snd ?I')) (heap (fst ?I') (params (snd ?I')))
          = Inr (Listing [PyStr ''t3_c''] (Some ''t3_b''))
      \<and> unwrap ?rd' (Listing [PyStr ''t3_c''] (Some ''t3_b''))
          = Inr (Listing [PyStr ''t3_c''] (Some ''t3_b''))
      \<and> [PyStr ''t3_c''] \<noteq> []"
    by (simp add: eval_defs)
  have s': "heap (fst ?I') 1 = [(''after'', PyStr ''t3_b''), (''limit'', PyInt 1024)]"
    "params (snd ?I') = 1" "limit (snd ?I') = None"
    by (auto simp: eval_defs)
  note b = cursor_advancement[OF h', THEN conjunct2, rule_format, OF i']
  from b s' have b1: "fst ?R' = Inr ()" "exhausted (snd (snd ?R'))"
    "heap (fst (snd ?R')) 1 = [(''after'', PyStr ''t3_b''), (''limit'', PyInt 1024)]"
    by (simp_all add: dict_get_def)
  have l': "limit (snd (snd ?R')) = None" by (simp add: eval_defs)
  from b have "\<forall>k. k \<le> length [PyStr ''t3_c'']
        \<and> (limit (snd (snd ?R')) = None
             \<or> yielded (snd (snd ?R')) + int k \<le> the (limit (snd (snd ?R'))))
        \<longrightarrow> run ?rd' k (fst (snd ?R'), snd (snd ?R')) =
              (map Inr (take k [PyStr ''t3_c'']), fst (snd ?R'),
               (snd (snd ?R'))\<lparr>list_index := Some (int k),
                               yielded := yielded (snd (snd ?R')) + int k\<rparr>)"
    by blast
  from this[rule_format, of 1] l'
  have b2: "fst (run ?rd' 1 (snd ?R')) = [Inr (PyStr ''t3_c'')]"
    by simp
  from a1 a2 b1 b2 show ?thesis by simp
qed

subsection \<open>C3: an empty page\<close>

text \<open>
  C3. The code at the input where the claim fails. The first \<^verbatim>\<open>get\<close> answers with an
  empty page (carrying a cursor), the second with a page of one item: the first call of
  \<^verbatim>\<open>__next__\<close> raises \<^verbatim>\<open>StopIteration\<close>, the second fetches again and returns the
  item. \<^verbatim>\<open>_next_batch\<close> raises on the empty page before it reaches the branch that
  sets \<^verbatim>\<open>_exhausted\<close>, so every later call repeats the request: three calls
  against a server that only has the empty page make three fetches.
\<close>

theorem empty_page_refetched:
  "fst (run (scripted [Inr (Listing [] (Some ''t3_a'')), Inr (Listing [PyStr ''t3_b''] None)]) 2
          (init empty_world ''/new'' None None))
     = [Inl StopIteration, Inr (PyStr ''t3_b'')]
   \<and> gets (fst (snd (run
          (scripted [Inr (Listing [] (Some ''t3_a'')), Inr (Listing [PyStr ''t3_b''] None)]) 2
          (init empty_world ''/new'' None None)))) = 2
   \<and> gets (fst (snd (run (scripted [Inr (Listing [] (Some ''t3_a''))]) 3
          (init empty_world ''/new'' None None)))) = 3"
  by (simp add: eval_defs numeral_2_eq_2 numeral_3_eq_3)

subsection \<open>C4: exhaustion is absorbing\<close>

text \<open>
  C4. From a state where \<^verbatim>\<open>_exhausted\<close> is true, it is still true after any number of
  calls of \<^verbatim>\<open>__next__\<close> and after one call, whatever the server answers; a refill
  raises \<^verbatim>\<open>StopIteration\<close> and leaves the store, the count of \<^verbatim>\<open>get\<close> calls
  included, and the generator unchanged; and so does a call of \<^verbatim>\<open>__next__\<close> that
  needs a refill.
\<close>

theorem exhaustion_absorbing:
  assumes "exhausted g"
  shows "exhausted (snd (snd (run rd n (w, g))))
         \<and> exhausted (snd (snd (dnext rd (w, g))))
         \<and> next_batch rd (w, g) = (Inl StopIteration, w, g)
         \<and> (needs_batch g = Inr True \<longrightarrow> dnext rd (w, g) = (Inl StopIteration, w, g))"
proof -
  have a: "exhausted (snd (snd (run rd n (w, g))))"
    using run_exhausted_mono[OF _ assms, of rd n w] by (metis prod.collapse)
  have b: "exhausted (snd (snd (dnext rd (w, g))))"
    using dnext_exhausted_mono[OF _ assms, of rd w] by (metis prod.collapse)
  have c: "next_batch rd (w, g) = (Inl StopIteration, w, g)"
    using assms by (rule next_batch_exhausted)
  have d: "dnext rd (w, g) = (Inl StopIteration, w, g)" if "needs_batch g = Inr True"
    using that c by (simp add: dnext_def)
  from a b c d show ?thesis by simp
qed

theorem exhaustion_absorbing_witness:
  "exhausted \<lparr>exhausted = True, listing = Listing [PyStr ''t3_a''] None, list_index = Some 1,
              limit = None, params = 0, url = ''/new'', yielded = 1\<rparr>
   \<and> exhausted (snd (snd (run (scripted [Inr (Listing [PyStr ''t3_z''] None)]) 2
        (empty_world,
         \<lparr>exhausted = True, listing = Listing [PyStr ''t3_a''] None, list_index = Some 1,
          limit = None, params = 0, url = ''/new'', yielded = 1\<rparr>))))
   \<and> fst (dnext (scripted [Inr (Listing [PyStr ''t3_z''] None)])
        (empty_world,
         \<lparr>exhausted = True, listing = Listing [PyStr ''t3_a''] None, list_index = Some 1,
          limit = None, params = 0, url = ''/new'', yielded = 1\<rparr>)) = Inl StopIteration
   \<and> gets (fst (snd (dnext (scripted [Inr (Listing [PyStr ''t3_z''] None)])
        (empty_world,
         \<lparr>exhausted = True, listing = Listing [PyStr ''t3_a''] None, list_index = Some 1,
          limit = None, params = 0, url = ''/new'', yielded = 1\<rparr>)))) = 0"
proof -
  let ?g = "\<lparr>exhausted = True, listing = Listing [PyStr ''t3_a''] None, list_index = Some 1,
              limit = None, params = 0, url = ''/new'', yielded = 1\<rparr>"
  have h: "exhausted ?g" by simp
  have n: "needs_batch ?g = Inr True" by (simp add: needs_batch_def)
  from exhaustion_absorbing[OF h, of "scripted [Inr (Listing [PyStr ''t3_z''] None)]" 2 empty_world] n
  show ?thesis by (simp add: empty_world_def)
qed

subsection \<open>C5: a failing fetch changes nothing\<close>

text \<open>
  C5. If the \<^verbatim>\<open>get\<close> call that \<^verbatim>\<open>__next__\<close> makes (the count of calls moves) raises
  \<open>e\<close>, then \<^verbatim>\<open>__next__\<close> raises \<open>e\<close>, every field of the generator is as it was
  before the call, and so is the store (the request parameters with it) but for the
  count of calls. Calling again is a retry from the same state.
\<close>

theorem fetch_failure_atomic:
  assumes "get rd (gets w) (url g) (heap w (params g)) = Inl e"
    and "dnext rd (w, g) = (r, w', g')"
    and "gets w' \<noteq> gets w"
  shows "r = Inl e \<and> g' = g \<and> w' = w\<lparr>gets := gets w + 1\<rparr>"
  using assms(2)
proof (cases rule: dnext_cases)
  case (limit_hit N)
  with assms(3) show ?thesis by simp
next
  case (len_error e)
  with assms(3) show ?thesis by simp
next
  case (batch_error e')
  with assms(1,3) show ?thesis
    by (auto simp: next_batch_def Let_def split: if_splits)
next
  case (index_error g1 b)
  with assms(1,3) show ?thesis
    by (auto simp: next_batch_def Let_def split: if_splits)
next
  case (item g1 b i)
  with assms(1,3) show ?thesis
    by (auto simp: next_batch_def Let_def split: if_splits)
qed

theorem fetch_failure_atomic_witness:
  "get (scripted [Inl (RequestException ''timeout'')]) 0 ''/new'' [(''limit'', PyInt 1024)]
     = Inl (RequestException ''timeout'')
   \<and> fst (dnext (scripted [Inl (RequestException ''timeout'')])
            (init empty_world ''/new'' None None)) = Inl (RequestException ''timeout'')
   \<and> snd (snd (dnext (scripted [Inl (RequestException ''timeout'')])
            (init empty_world ''/new'' None None))) = snd (init empty_world ''/new'' None None)
   \<and> heap (fst (snd (dnext (scripted [Inl (RequestException ''timeout'')])
            (init empty_world ''/new'' None None)))) = heap (fst (init empty_world ''/new'' None None))
   \<and> gets (fst (snd (dnext (scripted [Inl (RequestException ''timeout'')])
            (init empty_world ''/new'' None None)))) = 1"
proof -
  let ?rd = "scripted [Inl (RequestException ''timeout'')]"
  let ?I = "init empty_world ''/new'' None None"
  let ?R = "dnext ?rd ?I"
  have f: "get ?rd (gets (fst ?I)) (url (snd ?I)) (heap (fst ?I) (params (snd ?I)))
            = Inl (RequestException ''timeout'')"
    by (simp add: eval_defs)
  have d: "dnext ?rd (fst ?I, snd ?I) = (fst ?R, fst (snd ?R), snd (snd ?R))" by simp
  have c: "gets (fst (snd ?R)) \<noteq> gets (fst ?I)" by (simp add: eval_defs)
  have g0: "gets (fst ?I) = 0" by (simp add: eval_defs)
  have e: "get ?rd 0 ''/new'' [(''limit'', PyInt 1024)] = Inl (RequestException ''timeout'')"
    by (simp add: scripted_def)
  from fetch_failure_atomic[OF f d c] g0 e show ?thesis by simp
qed

subsection \<open>C6: responses of another shape\<close>

text \<open>
  C6 fails as stated: a bare \<open>Listing\<close> is neither a list nor a dictionary, the
  refill accepts it and \<^verbatim>\<open>__next__\<close> returns its first item. No exception for an
  unrecognised shape exists in the code.
\<close>

theorem protocol_violation_counterexample:
  "get (scripted [Inr (Listing [PyStr ''t3_a''] None)]) 0 ''/new'' [(''limit'', PyInt 1024)]
     = Inr (Listing [PyStr ''t3_a''] None)
   \<and> fst (next_batch (scripted [Inr (Listing [PyStr ''t3_a''] None)])
            (init empty_world ''/new'' None None)) = Inr ()
   \<and> fst (dnext (scripted [Inr (Listing [PyStr ''t3_a''] None)])
            (init empty_world ''/new'' None None)) = Inr (PyStr ''t3_a'')"
  by (simp add: eval_defs)

text \<open>
  C6, as amended. No response is rejected for its shape. Of the responses that are
  not a dictionary: a list of fewer than two elements raises \<^verbatim>\<open>IndexError\<close> at
  \<^verbatim>\<open>self._listing[1]\<close> and is left in \<^verbatim>\<open>_listing\<close>; of a longer list, of three or
  more elements as of two, element 1 is taken; any other response is taken as it is.
  What is taken becomes the current page at index 0, and the refill raises
  \<^verbatim>\<open>StopIteration\<close> when it is empty (false as a truth value), returns normally
  when it is a non-empty \<open>Listing\<close>, and raises \<^verbatim>\<open>AttributeError\<close> (no attribute
  \<^verbatim>\<open>after\<close>) otherwise. When it is a \<open>Listing\<close> and the generator needs a
  refill, \<open>k\<close> calls of \<^verbatim>\<open>__next__\<close> return its first \<open>k\<close> items in order, for
  every \<open>k\<close> from 1 to its length that the limit allows.
\<close>

theorem unrecognized_shape_passthrough:
  assumes "\<not> exhausted g" and "get rd (gets w) (url g) (heap w (params g)) = Inr r"
    and "\<not> isinstance_dict r"
  shows "unwrap rd r =
           (case r of
              PyList xs \<Rightarrow> (if length xs < 2 then Inl IndexError else Inr (xs ! 1))
            | other \<Rightarrow> Inr r)
         \<and> (\<forall>e. unwrap rd r = Inl e \<longrightarrow>
               next_batch rd (w, g) = (Inl e, w\<lparr>gets := gets w + 1\<rparr>, g\<lparr>listing := r\<rparr>))
         \<and> (\<forall>pg. unwrap rd r = Inr pg \<longrightarrow>
               listing (snd (snd (next_batch rd (w, g)))) = pg
               \<and> list_index (snd (snd (next_batch rd (w, g)))) = Some 0
               \<and> fst (next_batch rd (w, g)) =
                   (if \<not> truthy pg then Inl StopIteration
                    else if is_listing pg then Inr () else Inl AttributeError))
         \<and> (\<forall>cs a k. unwrap rd r = Inr (Listing cs a) \<and> needs_batch g = Inr True
                 \<and> 0 < k \<and> k \<le> length cs
                 \<and> (limit g = None \<or> yielded g + int k \<le> the (limit g))
               \<longrightarrow> fst (run rd k (w, g)) = map Inr (take k cs))"
proof -
  have shape: "unwrap rd r =
           (case r of
              PyList xs \<Rightarrow> (if length xs < 2 then Inl IndexError else Inr (xs ! 1))
            | other \<Rightarrow> Inr r)"
    using assms(3) by (cases r) (auto simp: list_getitem_def)
  have err: "next_batch rd (w, g) = (Inl e, w\<lparr>gets := gets w + 1\<rparr>, g\<lparr>listing := r\<rparr>)"
    if "unwrap rd r = Inl e" for e
    using assms(1,2) that by (simp add: next_batch_def Let_def)
  have ok: "listing (snd (snd (next_batch rd (w, g)))) = pg
               \<and> list_index (snd (snd (next_batch rd (w, g)))) = Some 0
               \<and> fst (next_batch rd (w, g)) =
                   (if \<not> truthy pg then Inl StopIteration
                    else if is_listing pg then Inr () else Inl AttributeError)"
    if u: "unwrap rd r = Inr pg" for pg
  proof -
    have "(case after_attr pg of Inl e \<Rightarrow> Inl e | Inr a \<Rightarrow> Inr ()) =
          (if is_listing pg then Inr () else Inl AttributeError)"
      by (cases pg) auto
    with next_batch_unwrapped(1,2,4)[OF assms(1,2) u] show ?thesis by simp
  qed
  have items: "fst (run rd k (w, g)) = map Inr (take k cs)"
    if "unwrap rd r = Inr (Listing cs a)" "needs_batch g = Inr True" "0 < k" "k \<le> length cs"
       "limit g = None \<or> yielded g + int k \<le> the (limit g)" for cs a k
    using run_refill_page(1)[OF that(2) assms(1,2) that(1,3,4,5)] .
  from shape err ok items show ?thesis by blast
qed

theorem unrecognized_shape_passthrough_witness:
  "\<not> isinstance_dict (Listing [PyStr ''t3_a''] None)
   \<and> listing (snd (snd (next_batch (scripted [Inr (Listing [PyStr ''t3_a''] None)])
            (init empty_world ''/new'' None None)))) = Listing [PyStr ''t3_a''] None
   \<and> fst (next_batch (scripted [Inr (Listing [PyStr ''t3_a''] None)])
            (init empty_world ''/new'' None None)) = Inr ()
   \<and> fst (run (scripted [Inr (Listing [PyStr ''t3_a''] None)]) 1
            (init empty_world ''/new'' None None)) = [Inr (PyStr ''t3_a'')]
   \<and> listing (snd (snd (next_batch
        (scripted [Inr (PyList [PyStr ''t3_x'', Listing [PyStr ''t3_a''] None, PyStr ''t3_z''])])
        (init empty_world ''/new'' None None)))) = Listing [PyStr ''t3_a''] None
   \<and> fst (next_batch
        (scripted [Inr (PyList [PyStr ''t3_x'', Listing [PyStr ''t3_a''] None, PyStr ''t3_z''])])
        (init empty_world ''/new'' None None)) = Inr ()
   \<and> fst (next_batch (scripted [Inr (PyList [PyStr ''t3_x''])])
        (init empty_world ''/new'' None None)) = Inl IndexError
   \<and> listing (snd (snd (next_batch (scripted [Inr (PyList [PyStr ''t3_x''])])
        (init empty_world ''/new'' None None)))) = PyList [PyStr ''t3_x'']"
proof -
  let ?I = "init empty_world ''/new'' None None"
  have e: "\<not> exhausted (snd ?I)" by (simp add: init_def Let_def)
  have n: "needs_batch (snd ?I) = Inr True" "limit (snd ?I) = None"
    by (simp_all add: init_def needs_batch_def Let_def)
  let ?rd1 = "scripted [Inr (Listing [PyStr ''t3_a''] None)]"
  have f1: "get ?rd1 (gets (fst ?I)) (url (snd ?I)) (heap (fst ?I) (params (snd ?I)))
            = Inr (Listing [PyStr ''t3_a''] None)"
    by (simp add: eval_defs)
  have d1: "\<not> isinstance_dict (Listing [PyStr ''t3_a''] None)" by simp
  note t1 = unrecognized_shape_passthrough[OF e f1 d1]
  from t1 have u1: "unwrap ?rd1 (Listing [PyStr ''t3_a''] None) = Inr (Listing [PyStr ''t3_a''] None)"
    by simp
  from t1[THEN conjunct2, THEN conjunct2, THEN conjunct1, rule_format, OF u1]
  have a: "listing (snd (snd (next_batch ?rd1 ?I))) = Listing [PyStr ''t3_a''] None"
    "fst (next_batch ?rd1 ?I) = Inr ()"
    by simp_all
  from t1[THEN conjunct2, THEN conjunct2, THEN conjunct2, rule_format,
          of "[PyStr ''t3_a'']" None 1] u1 n
  have b: "fst (run ?rd1 1 ?I) = [Inr (PyStr ''t3_a'')]" by simp
  let ?rd3 = "scripted [Inr (PyList [PyStr ''t3_x'', Listing [PyStr ''t3_a''] None, PyStr ''t3_z''])]"
  have f3: "get ?rd3 (gets (fst ?I)) (url (snd ?I)) (heap (fst ?I) (params (snd ?I)))
            = Inr (PyList [PyStr ''t3_x'', Listing [PyStr ''t3_a''] None, PyStr ''t3_z''])"
    by (simp add: eval_defs)
  have d3: "\<not> isinstance_dict (PyList [PyStr ''t3_x'', Listing [PyStr ''t3_a''] None, PyStr ''t3_z''])"
    by simp
  note t3 = unrecognized_shape_passthrough[OF e f3 d3]
  from t3 have u3: "unwrap ?rd3 (PyList [PyStr ''t3_x'', Listing [PyStr ''t3_a''] None, PyStr ''t3_z''])
      = Inr (Listing [PyStr ''t3_a''] None)"
    by simp
  from t3[THEN conjunct2, THEN conjunct2, THEN conjunct1, rule_format, OF u3]
  have c: "listing (snd (snd (next_batch ?rd3 ?I))) = Listing [PyStr ''t3_a''] None"
    "fst (next_batch ?rd3 ?I) = Inr ()"
    by simp_all
  let ?rd0 = "scripted [Inr (PyList [PyStr ''t3_x''])]"
  have f0: "get ?rd0 (gets (fst ?I)) (url (snd ?I)) (heap (fst ?I) (params (snd ?I)))
            = Inr (PyList [PyStr ''t3_x''])"
    by (simp add: eval_defs)
  have d0: "\<not> isinstance_dict (PyList [PyStr ''t3_x''])" by simp
  note t0 = unrecognized_shape_passthrough[OF e f0 d0]
  from t0 have u0: "unwrap ?rd0 (PyList [PyStr ''t3_x'']) = Inl IndexError" by simp
  from t0[THEN conjunct2, THEN conjunct1, rule_format, OF u0]
  have "next_batch ?rd0 (fst ?I, snd ?I)
          = (Inl IndexError, (fst ?I)\<lparr>gets := gets (fst ?I) + 1\<rparr>,
             (snd ?I)\<lparr>listing := PyList [PyStr ''t3_x'']\<rparr>)" .
  then have d: "fst (next_batch ?rd0 ?I) = Inl IndexError"
    "listing (snd (snd (next_batch ?rd0 ?I))) = PyList [PyStr ''t3_x'']"
    by simp_all
  from a b c d show ?thesis by simp
qed

subsection \<open>C7: the duplicates shape\<close>

text \<open>
  C7. A generator that needs a refill, is not exhausted and has not reached its limit
  receives the response \<^verbatim>\<open>[X, pageY]\<close>. After the call \<^verbatim>\<open>pageY\<close> is the current page,
  with one fetch made. For every \<open>k\<close> from 1 to the length of \<^verbatim>\<open>pageY\<close> that the
  limit allows, \<open>k\<close> calls return the first \<open>k\<close> items of \<^verbatim>\<open>pageY\<close> in order,
  with that one fetch, and leave the index at \<open>k\<close>: at the full length the outputs are
  the items of \<^verbatim>\<open>pageY\<close> and the page is used up. \<open>X\<close> is not among them unless it
  is an item of \<^verbatim>\<open>pageY\<close>.
\<close>

theorem duplicates_unwrapping:
  assumes "needs_batch g = Inr True" and "\<not> exhausted g"
    and "get rd (gets w) (url g) (heap w (params g)) = Inr (PyList [X, Listing cs a])"
    and "limit g = None \<or> yielded g < the (limit g)"
  shows "listing (snd (snd (dnext rd (w, g)))) = Listing cs a
         \<and> gets (fst (snd (dnext rd (w, g)))) = gets w + 1
         \<and> (\<forall>k. 0 < k \<and> k \<le> length cs
                  \<and> (limit g = None \<or> yielded g + int k \<le> the (limit g))
               \<longrightarrow> fst (run rd k (w, g)) = map Inr (take k cs)
                   \<and> listing (snd (snd (run rd k (w, g)))) = Listing cs a
                   \<and> list_index (snd (snd (run rd k (w, g)))) = Some (int k)
                   \<and> gets (fst (snd (run rd k (w, g)))) = gets w + 1)"
proof -
  have u: "unwrap rd (PyList [X, Listing cs a]) = Inr (Listing cs a)"
    by (simp add: list_getitem_def)
  from dnext_listing[OF assms(1,4), of rd w] next_batch_unwrapped(1,3)[OF assms(2,3) u]
  have first: "listing (snd (snd (dnext rd (w, g)))) = Listing cs a"
    "gets (fst (snd (dnext rd (w, g)))) = gets w + 1"
    by simp_all
  have pulls: "fst (run rd k (w, g)) = map Inr (take k cs)
                   \<and> listing (snd (snd (run rd k (w, g)))) = Listing cs a
                   \<and> list_index (snd (snd (run rd k (w, g)))) = Some (int k)
                   \<and> gets (fst (snd (run rd k (w, g)))) = gets w + 1"
    if "0 < k" "k \<le> length cs" "limit g = None \<or> yielded g + int k \<le> the (limit g)" for k
    using run_refill_page[OF assms(1,2,3) u that] by simp
  from first pulls show ?thesis by blast
qed

theorem duplicates_unwrapping_witness:
  "fst (run (scripted [Inr (PyList [PyStr ''t3_x'', Listing [PyStr ''t3_a'', PyStr ''t3_b''] None])])
          2 (init empty_world ''/duplicates'' None None))
     = [Inr (PyStr ''t3_a''), Inr (PyStr ''t3_b'')]
   \<and> list_index (snd (snd (run
          (scripted [Inr (PyList [PyStr ''t3_x'', Listing [PyStr ''t3_a'', PyStr ''t3_b''] None])])
          2 (init empty_world ''/duplicates'' None None)))) = Some 2
   \<and> gets (fst (snd (run
          (scripted [Inr (PyList [PyStr ''t3_x'', Listing [PyStr ''t3_a'', PyStr ''t3_b''] None])])
          2 (init empty_world ''/duplicates'' None None)))) = 1"
proof -
  let ?rd = "scripted [Inr (PyList [PyStr ''t3_x'', Listing [PyStr ''t3_a'', PyStr ''t3_b''] None])]"
  let ?I = "init empty_world ''/duplicates'' None None"
  have n: "needs_batch (snd ?I) = Inr True" by (simp add: init_def needs_batch_def Let_def)
  have e: "\<not> exhausted (snd ?I)" by (simp add: init_def Let_def)
  have f: "get ?rd (gets (fst ?I)) (url (snd ?I)) (heap (fst ?I) (params (snd ?I)))
            = Inr (PyList [PyStr ''t3_x'', Listing [PyStr ''t3_a'', PyStr ''t3_b''] None])"
    by (simp add: eval_defs)
  have l: "limit (snd ?I) = None \<or> yielded (snd ?I) < the (limit (snd ?I))"
    by (simp add: init_def Let_def)
  have g: "gets (fst ?I) = 0" "limit (snd ?I) = None" by (simp_all add: eval_defs)
  from duplicates_unwrapping[OF n e f l] have
    "\<forall>k. 0 < k \<and> k \<le> length [PyStr ''t3_a'', PyStr ''t3_b'']
            \<and> (limit (snd ?I) = None \<or> yielded (snd ?I) + int k \<le> the (limit (snd ?I)))
        \<longrightarrow> fst (run ?rd k (fst ?I, snd ?I)) = map Inr (take k [PyStr ''t3_a'', PyStr ''t3_b''])
            \<and> listing (snd (snd (run ?rd k (fst ?I, snd ?I))))
                = Listing [PyStr ''t3_a'', PyStr ''t3_b''] None
            \<and> list_index (snd (snd (run ?rd k (fst ?I, snd ?I)))) = Some (int k)
            \<and> gets (fst (snd (run ?rd k (fst ?I, snd ?I)))) = gets (fst ?I) + 1"
    by blast
  from this[rule_format, of 2] g show ?thesis by simp
qed

subsection \<open>C8: the index and the page\<close>

text \<open>
  C8 fails as stated: after the only item of a page has been returned, the index
  equals the length of the page, so it is not an index into it.
\<close>

theorem index_validity_counterexample:
  "\<not> (listing (snd (snd (dnext (scripted [Inr (Listing [PyStr ''t3_a''] None)])
                      (init empty_world ''/new'' None None)))) = PyNone
       \<or> (\<exists>i n. list_index (snd (snd (dnext (scripted [Inr (Listing [PyStr ''t3_a''] None)])
                      (init empty_world ''/new'' None None)))) = Some i
              \<and> len (listing (snd (snd (dnext (scripted [Inr (Listing [PyStr ''t3_a''] None)])
                      (init empty_world ''/new'' None None))))) = Inr n
              \<and> 0 \<le> i \<and> i < n))"
  by (simp add: eval_defs)

text \<open>
  C8, as amended. When every answer of \<^verbatim>\<open>get\<close> is an exception, a \<open>Listing\<close>, a
  list whose element 1 is a \<open>Listing\<close>, or a dictionary, then after construction and
  after every call of \<^verbatim>\<open>__next__\<close>, failed or not, there is no current page or
  \<open>0 \<le> list_index \<le> len(listing)\<close>: the index may stand at the end of the page,
  which is the state that triggers the next refill.
\<close>

theorem index_validity:
  assumes "\<forall>n u d. page_response (get rd n u d)"
  shows "index_valid (snd (snd (run rd n (init w u lim p))))"
proof -
  have step: "index_valid (snd (snd (run rd n (w, g))))" if "index_valid g" for w g
    using that
  proof (induction n arbitrary: w g)
    case 0
    then show ?case by simp
  next
    case (Suc n)
    obtain r w1 g1 where d: "dnext rd (w, g) = (r, w1, g1)" by (metis prod_cases3)
    from dnext_index_valid[of rd w g] assms Suc.prems d have "index_valid g1" by simp
    from Suc.IH[OF this, of w1] d show ?case by (auto split: prod.splits)
  qed
  have "index_valid (snd (init w u lim p))" by (simp add: init_def index_valid_def Let_def)
  from step[OF this, of "fst (init w u lim p)"] show ?thesis by simp
qed

theorem index_validity_witness:
  "index_valid (snd (snd (run (scripted [Inr (Listing [PyStr ''t3_a''] None)]) 2
                      (init empty_world ''/new'' None None))))
   \<and> list_index (snd (snd (run (scripted [Inr (Listing [PyStr ''t3_a''] None)]) 2
                      (init empty_world ''/new'' None None)))) = Some 1
   \<and> len (listing (snd (snd (run (scripted [Inr (Listing [PyStr ''t3_a''] None)]) 2
                      (init empty_world ''/new'' None None))))) = Inr 1"
proof -
  have h: "\<forall>n u d. page_response (get (scripted [Inr (Listing [PyStr ''t3_a''] None)]) n u d)"
    by (simp add: scripted_def)
  have e: "list_index (snd (snd (run (scripted [Inr (Listing [PyStr ''t3_a''] None)]) 2
                      (init empty_world ''/new'' None None)))) = Some 1"
    "len (listing (snd (snd (run (scripted [Inr (Listing [PyStr ''t3_a''] None)]) 2
                      (init empty_world ''/new'' None None))))) = Inr 1"
    by (simp_all add: eval_defs numeral_2_eq_2)
  from index_validity[OF h, of 2 empty_world "''/new''" None None] e show ?thesis by simp
qed

subsection \<open>C9: the caller's parameters\<close>

text \<open>
  C9. The caller passes the dictionary at the address \<open>a\<close>, an object of the store.
  The generator's own dictionary is another object; at construction it holds the
  caller's entries with \<^verbatim>\<open>"limit"\<close> set. The caller's dictionary is unchanged by the
  construction and by any number of calls of \<^verbatim>\<open>__next__\<close>, whatever the server
  answers.
\<close>

theorem caller_params_isolated:
  assumes "a < next_addr w" and "init w u lim (Some a) = (w1, g)"
    and "run rd n (w1, g) = (rs, w2, g2)"
  shows "params g \<noteq> a \<and> params g2 = params g
         \<and> heap w1 (params g) =
             dict_set ''limit'' (PyInt (case lim of None \<Rightarrow> 1024
                                        | Some l \<Rightarrow> if l = 0 then 1024 else l)) (heap w a)
         \<and> heap w1 a = heap w a \<and> heap w2 a = heap w a"
proof -
  from assms(2) have p: "params g = next_addr w"
    and h: "heap w1 = (heap w)(next_addr w :=
             dict_set ''limit'' (PyInt (case lim of None \<Rightarrow> 1024
                                        | Some l \<Rightarrow> if l = 0 then 1024 else l)) (heap w a))"
    by (auto simp: init_def Let_def)
  from p assms(1) have ne: "a \<noteq> params g" by simp
  from run_heap_frame[OF assms(3) ne] have "heap w2 a = heap w1 a" .
  with p h ne run_frame[OF assms(3)] show ?thesis by simp
qed

theorem caller_params_isolated_witness:
  "(0::nat) < next_addr \<lparr>heap = (\<lambda>a. if a = 0 then [(''t'', PyStr ''day'')] else []),
                          next_addr = 1, gets = 0\<rparr>
   \<and> heap (fst (snd (run (scripted [Inr (Listing [PyStr ''t3_a''] (Some ''t3_a''))]) 1
        (init \<lparr>heap = (\<lambda>a. if a = 0 then [(''t'', PyStr ''day'')] else []),
               next_addr = 1, gets = 0\<rparr> ''/top'' (Some 5) (Some 0))))) 0
       = [(''t'', PyStr ''day'')]
   \<and> heap (fst (snd (run (scripted [Inr (Listing [PyStr ''t3_a''] (Some ''t3_a''))]) 1
        (init \<lparr>heap = (\<lambda>a. if a = 0 then [(''t'', PyStr ''day'')] else []),
               next_addr = 1, gets = 0\<rparr> ''/top'' (Some 5) (Some 0))))) 1
       = [(''t'', PyStr ''day''), (''limit'', PyInt 5), (''after'', PyStr ''t3_a'')]"
proof -
  let ?w = "\<lparr>heap = (\<lambda>a. if a = 0 then [(''t'', PyStr ''day'')] else []),
             next_addr = 1, gets = 0\<rparr>"
  let ?rd = "scripted [Inr (Listing [PyStr ''t3_a''] (Some ''t3_a''))]"
  let ?I = "init ?w ''/top'' (Some 5) (Some 0)"
  let ?R = "run ?rd 1 ?I"
  have a: "(0::nat) < next_addr ?w" by simp
  have i: "init ?w ''/top'' (Some 5) (Some 0) = (fst ?I, snd ?I)" by simp
  have r: "run ?rd 1 (fst ?I, snd ?I) = (fst ?R, fst (snd ?R), snd (snd ?R))" by simp
  have own: "heap (fst (snd ?R)) 1
       = [(''t'', PyStr ''day''), (''limit'', PyInt 5), (''after'', PyStr ''t3_a'')]"
    by (simp add: eval_defs)
  from caller_params_isolated[OF a i r] own show ?thesis by simp
qed

subsection \<open>C10: the limit 0\<close>

text \<open>
  C10. With \<^verbatim>\<open>limit=0\<close> every call of \<^verbatim>\<open>__next__\<close> raises \<^verbatim>\<open>StopIteration\<close> and
  leaves the store and the generator as the construction left them: no \<^verbatim>\<open>get\<close> call
  is ever made. The construction makes none either, and it sets \<^verbatim>\<open>params["limit"]\<close>
  to 1024.
\<close>

theorem zero_limit:
  "run rd n (init w u (Some 0) p) = (replicate n (Inl StopIteration), init w u (Some 0) p)
   \<and> gets (fst (init w u (Some 0) p)) = gets w
   \<and> dict_get ''limit'' (heap (fst (init w u (Some 0) p)) (params (snd (init w u (Some 0) p))))
       = PyInt 1024"
proof -
  obtain w0 g0 where i: "init w u (Some 0) p = (w0, g0)" by (cases "init w u (Some 0) p")
  then have g0: "limit g0 = Some 0" "0 \<le> yielded g0" by (auto simp: init_def Let_def)
  from i have "gets w0 = gets w" "dict_get ''limit'' (heap w0 (params g0)) = PyInt 1024"
    by (auto simp: init_def Let_def dict_get_set)
  with run_limit_hit[OF g0, of rd n w0] i show ?thesis by simp
qed

theorem zero_limit_witness:
  "fst (run (scripted [Inr (Listing [PyStr ''t3_a''] None)]) 2
          (init empty_world ''/new'' (Some 0) None))
     = [Inl StopIteration, Inl StopIteration]
   \<and> gets (fst (snd (run (scripted [Inr (Listing [PyStr ''t3_a''] None)]) 2
          (init empty_world ''/new'' (Some 0) None)))) = 0
   \<and> heap (fst (init empty_world ''/new'' (Some 0) None)) 0 = [(''limit'', PyInt 1024)]"
proof -
  have "heap (fst (init empty_world ''/new'' (Some 0) None)) 0 = [(''limit'', PyInt 1024)]"
       "gets (fst (init empty_world ''/new'' (Some 0) None)) = 0"
    by (simp_all add: eval_defs)
  with zero_limit[of "scripted [Inr (Listing [PyStr ''t3_a''] None)]" 2 empty_world "''/new''" None]
  show ?thesis by (simp add: numeral_2_eq_2)
qed

end
